theory Spec2Isabelle
  imports Main "HOL-Library.Sublist"
begin

section \<open>Strings\<close>

text \<open>
  A Python \<open>str\<close> is modelled as a \<open>string\<close>, one \<open>char\<close> per code point; code points
  from 256 on are outside the model. The string methods the rule resolver calls are
  written out below with the meaning they have in CPython.
\<close>

datatype error = ValueError

definition startswith :: "string \<Rightarrow> string \<Rightarrow> bool" where
  "startswith s p = prefix p s"

definition endswith :: "string \<Rightarrow> string \<Rightarrow> bool" where
  "endswith s p = suffix p s"

text \<open>\<open>contains sub s\<close> is Python's \<open>sub in s\<close>.\<close>

fun contains :: "string \<Rightarrow> string \<Rightarrow> bool" where
  "contains sub [] = (sub = [])"
| "contains sub (c # cs) = (prefix sub (c # cs) \<or> contains sub cs)"

text \<open>
  \<open>split s sep\<close> is \<open>s.split(sep)\<close> for a non-empty separator: the leftmost occurrences
  of \<open>sep\<close>, not overlapping. \<open>split_aux sep cur rest\<close> scans \<open>rest\<close> with the piece
  \<open>cur\<close> read so far. Every call in the source passes a non-empty literal separator.
\<close>

function split_aux :: "string \<Rightarrow> string \<Rightarrow> string \<Rightarrow> string list" where
  "split_aux sep cur [] = [cur]"
| "split_aux sep cur (c # cs) =
     (if sep \<noteq> [] \<and> prefix sep (c # cs)
      then cur # split_aux sep [] (drop (length sep) (c # cs))
      else split_aux sep (cur @ [c]) cs)"
  by pat_completeness auto
termination
  by (relation "measure (\<lambda>(sep, cur, rest). length rest)") (auto simp: neq_Nil_conv)

definition split :: "string \<Rightarrow> string \<Rightarrow> string list" where
  "split s sep = split_aux sep [] s"

text \<open>\<open>str_join sep xs\<close> is \<open>sep.join(xs)\<close>.\<close>

fun str_join :: "string \<Rightarrow> string list \<Rightarrow> string" where
  "str_join sep [] = []"
| "str_join sep [x] = x"
| "str_join sep (x # y # ys) = x @ sep @ str_join sep (y # ys)"

text \<open>
  \<open>strip s\<close> is \<open>s.strip()\<close>: it removes the characters for which \<open>str.isspace\<close>
  holds from both ends. Below code point 256 these are 9 to 13, 28 to 32, 133 and 160.
\<close>

definition is_space :: "char \<Rightarrow> bool" where
  "is_space c =
     (let n = (of_char c :: nat)
      in (9 \<le> n \<and> n \<le> 13) \<or> (28 \<le> n \<and> n \<le> 32) \<or> n = 133 \<or> n = 160)"

definition strip :: "string \<Rightarrow> string" where
  "strip s = rev (dropWhile is_space (rev (dropWhile is_space s)))"

text \<open>
  \<open>lower s\<close> is \<open>s.lower()\<close>: below code point 256 the upper-case letters are
  A to Z and 192 to 222 without the multiplication sign 215, each 32 below its
  lower-case letter.
\<close>

definition lower_char :: "char \<Rightarrow> char" where
  "lower_char c =
     (let n = (of_char c :: nat)
      in if (65 \<le> n \<and> n \<le> 90) \<or> (192 \<le> n \<and> n \<le> 222 \<and> n \<noteq> 215)
         then char_of (n + 32) else c)"

definition lower :: "string \<Rightarrow> string" where
  "lower s = map lower_char s"

text \<open>
  \<open>partition_aux sep cur rest\<close> looks for the first occurrence of \<open>sep\<close> in \<open>rest\<close>
  and returns what is before it (after \<open>cur\<close>) and what is after it.
  \<open>line.split(":", 1)\<close> under the guard \<open>":" in line\<close> is \<open>split_first '':'' line\<close>.
\<close>

fun partition_aux :: "string \<Rightarrow> string \<Rightarrow> string \<Rightarrow> (string \<times> string) option" where
  "partition_aux sep cur [] = (if sep = [] then Some (cur, []) else None)"
| "partition_aux sep cur (c # cs) =
     (if prefix sep (c # cs) then Some (cur, drop (length sep) (c # cs))
      else partition_aux sep (cur @ [c]) cs)"

definition split_first :: "string \<Rightarrow> string \<Rightarrow> (string \<times> string) option" where
  "split_first sep s = partition_aux sep [] s"

section \<open>Pure paths\<close>

text \<open>
  \<open>Path(file_path)\<close> on a POSIX system parses the string into a root (no slash, one
  slash, or exactly two) and the components that are neither empty nor a single dot.
  \<open>path_name\<close> is its \<open>name\<close>, \<open>path_str\<close> its \<open>str()\<close>.
\<close>

definition path_root :: "string \<Rightarrow> string" where
  "path_root p =
     (if \<not> startswith p ''/'' then ''''
      else if startswith p ''//'' \<and> \<not> startswith p ''///'' then ''//''
      else ''/'')"

definition path_tail :: "string \<Rightarrow> string list" where
  "path_tail p =
     filter (\<lambda>x. x \<noteq> '''' \<and> x \<noteq> ''.'') (split (drop (length (path_root p)) p) ''/'')"

definition path_name :: "string \<Rightarrow> string" where
  "path_name p = (case path_tail p of [] \<Rightarrow> '''' | t # ts \<Rightarrow> last (t # ts))"

definition path_str :: "string \<Rightarrow> string" where
  "path_str p =
     (let s = path_root p @ str_join ''/'' (path_tail p) in if s = '''' then ''.'' else s)"

section \<open>The glob matcher\<close>

text \<open>
  \<open>match_file_with_glob\<close>, branch by branch. The unpacking
  \<open>dir_part, file_part = glob_pattern.split("/**/")\<close> raises \<open>ValueError\<close> unless the
  split has exactly two pieces. The last branch calls the standard library's
  \<open>fnmatch.fnmatch\<close>, which is taken as the parameter \<open>fnmatch\<close>.
\<close>

definition match_file_with_glob ::
    "(string \<Rightarrow> string \<Rightarrow> bool) \<Rightarrow> string \<Rightarrow> string \<Rightarrow> error + bool" where
  "match_file_with_glob fnmatch file_path glob_pattern =
     (let file_name = path_name file_path in
      if startswith glob_pattern ''*.'' then
        Inr (endswith file_name (drop 1 glob_pattern))
      else if glob_pattern = ''**/*.js'' \<or> glob_pattern = ''**/*.jsx'' then
        (let ext = last (split glob_pattern ''.'') in
         Inr (endswith file_name (''.'' @ ext)))
      else if contains ''/'' glob_pattern \<and> contains ''**'' glob_pattern then
        (case split glob_pattern ''/**/'' of
           [dir_part, file_part] \<Rightarrow>
             if startswith file_part ''*'' \<and> \<not> endswith file_name (drop 1 file_part)
             then Inr False
             else Inr (contains dir_part (path_str file_path))
         | _ \<Rightarrow> Inl ValueError)
      else Inr (fnmatch file_name glob_pattern))"


section \<open>POSIX path functions\<close>

text \<open>
  The functions of \<open>os.path\<close> the resolver calls, as \<open>posixpath\<close> defines them.
  \<open>os_path_join\<close> is one step of \<open>os.path.join\<close> (its loop body), \<open>os_path_join_list\<close>
  the call on a first argument and the others.
\<close>

definition os_path_join :: "string \<Rightarrow> string \<Rightarrow> string" where
  "os_path_join path b =
     (if startswith b ''/'' then b
      else if path = '''' \<or> endswith path ''/'' then path @ b
      else path @ ''/'' @ b)"

definition os_path_join_list :: "string \<Rightarrow> string list \<Rightarrow> string" where
  "os_path_join_list a ps = foldl os_path_join a ps"

definition initial_slashes :: "string \<Rightarrow> nat" where
  "initial_slashes path =
     (if \<not> startswith path ''/'' then 0
      else if startswith path ''//'' \<and> \<not> startswith path ''///'' then 2
      else 1)"

fun norm_comps :: "nat \<Rightarrow> string list \<Rightarrow> string list \<Rightarrow> string list" where
  "norm_comps sl new_comps [] = new_comps"
| "norm_comps sl new_comps (component # comps) =
     (if component = '''' \<or> component = ''.'' then norm_comps sl new_comps comps
      else if component \<noteq> ''..'' \<or> (sl = 0 \<and> new_comps = [])
              \<or> (new_comps \<noteq> [] \<and> last new_comps = ''..'')
        then norm_comps sl (new_comps @ [component]) comps
      else if new_comps \<noteq> [] then norm_comps sl (butlast new_comps) comps
      else norm_comps sl new_comps comps)"

definition normpath :: "string \<Rightarrow> string" where
  "normpath path =
     (if path = '''' then ''.''
      else
        let sl = initial_slashes path;
            comps = norm_comps sl [] (split path ''/'');
            p = replicate sl CHR ''/'' @ str_join ''/'' comps
        in if p = '''' then ''.'' else p)"

definition abspath :: "string \<Rightarrow> string \<Rightarrow> string" where
  "abspath cwd path =
     normpath (if \<not> startswith path ''/'' then os_path_join cwd path else path)"

definition dirname :: "string \<Rightarrow> string" where
  "dirname p =
     (let head = rev (dropWhile (\<lambda>c. c \<noteq> CHR ''/'') (rev p))
      in if head \<noteq> '''' \<and> head \<noteq> replicate (length head) CHR ''/''
         then rev (dropWhile (\<lambda>c. c = CHR ''/'') (rev head))
         else head)"

definition relpath :: "string \<Rightarrow> string \<Rightarrow> string \<Rightarrow> error + string" where
  "relpath cwd path start =
     (if path = '''' then Inl ValueError
      else
        let start_list = filter (\<lambda>x. x \<noteq> '''') (split (abspath cwd start) ''/'');
            path_list = filter (\<lambda>x. x \<noteq> '''') (split (abspath cwd path) ''/'');
            i = length (longest_common_prefix start_list path_list);
            rel_list = replicate (length start_list - i) ''..'' @ drop i path_list
        in case rel_list of
             [] \<Rightarrow> Inr ''.''
           | a # ps \<Rightarrow> Inr (os_path_join_list a ps))"

section \<open>Rules and the rule loader\<close>

record rule =
  description :: "string option"
  globs :: "string list"
  always_apply :: bool
  payload :: string
  file_path :: string

text \<open>
  What the resolver reads from outside: the working directory, the filesystem and
  \<open>fnmatch\<close>. \<open>read_text p\<close> is the text \<open>open(p).read()\<close> returns, \<open>None\<close> when
  opening, reading or decoding raises. \<open>walk top\<close> is the sequence \<open>os.walk(top)\<close>
  yields, each item without its list of subdirectories, which the source ignores.
\<close>

record env =
  getcwd :: string
  isdir :: "string \<Rightarrow> bool"
  walk :: "string \<Rightarrow> (string \<times> string list) list"
  read_text :: "string \<Rightarrow> string option"
  fnmatch :: "string \<Rightarrow> string \<Rightarrow> bool"

text \<open>
  \<open>re.match(r"^---\n(.*?)\n---\n(.*)", content, re.DOTALL)\<close>: the content starts with
  the opening line, the first group is the shortest text followed by the closing
  line, the second group is all that follows.
\<close>

definition frontmatter_match :: "string \<Rightarrow> (string \<times> string) option" where
  "frontmatter_match content =
     (if startswith content ''---\<newline>''
      then split_first ''\<newline>---\<newline>'' (drop 4 content)
      else None)"

definition parse_line :: "(string \<rightharpoonup> string) \<Rightarrow> string \<Rightarrow> (string \<rightharpoonup> string)" where
  "parse_line frontmatter line =
     (case split_first '':'' line of
        None \<Rightarrow> frontmatter
      | Some (key, val) \<Rightarrow> frontmatter(strip key \<mapsto> strip val))"

definition parse_frontmatter :: "string \<Rightarrow> (string \<rightharpoonup> string)" where
  "parse_frontmatter frontmatter_text =
     foldl parse_line Map.empty (split (strip frontmatter_text) ''\<newline>'')"

definition parse_rule :: "string \<Rightarrow> string \<Rightarrow> rule option" where
  "parse_rule fpath content =
     (case frontmatter_match content of
        None \<Rightarrow> None
      | Some (frontmatter_text, body) \<Rightarrow>
          let frontmatter = parse_frontmatter frontmatter_text;
              globs_value = frontmatter ''globs'';
              always_apply_value =
                (case frontmatter ''alwaysApply'' of None \<Rightarrow> ''false'' | Some v \<Rightarrow> v)
          in Some \<lparr> description = frontmatter ''description'',
                    globs = (case globs_value of
                               None \<Rightarrow> []
                             | Some v \<Rightarrow> if v = '''' then [] else map strip (split v '','')),
                    always_apply = (lower always_apply_value = ''true''),
                    payload = strip body,
                    file_path = fpath \<rparr>)"

definition load_rule_from_file :: "env \<Rightarrow> string \<Rightarrow> rule option" where
  "load_rule_from_file e fpath =
     (case read_text e fpath of
        None \<Rightarrow> None
      | Some content \<Rightarrow> parse_rule fpath content)"

section \<open>Discovery\<close>

text \<open>
  The local variables of \<open>find_applicable_rules\<close>, with three more fields that record
  what the call does: \<open>visited\<close>, the directories the loop body ran on, in order;
  \<open>loaded\<close>, the paths \<open>load_rule_from_file\<close> was called on, in order; and \<open>raised\<close>,
  the exception under way, if any. Once \<open>raised\<close> is set no statement runs any more.
\<close>

record state =
  applicable_rules :: "rule list"
  suggested_rules :: "(string \<times> string) list"
  processed_rule_files :: "string set"
  visited :: "string list"
  loaded :: "string list"
  raised :: "error option"

definition init_state :: state where
  "init_state =
     \<lparr> applicable_rules = [], suggested_rules = [], processed_rule_files = {},
       visited = [], loaded = [], raised = None \<rparr>"

text \<open>Python's truth test on an optional string: neither \<open>None\<close> nor empty.\<close>

definition truthy :: "string option \<Rightarrow> bool" where
  "truthy s = (case s of None \<Rightarrow> False | Some v \<Rightarrow> v \<noteq> '''')"

text \<open>
  The loop over \<open>rule.globs\<close>: \<open>Inr True\<close> when it reaches \<open>break\<close>, \<open>Inr False\<close> when it
  runs to its end, the exception when a test raises.
\<close>

fun match_any :: "(string \<Rightarrow> string \<Rightarrow> bool) \<Rightarrow> string \<Rightarrow> string list \<Rightarrow> error + bool" where
  "match_any fm target [] = Inr False"
| "match_any fm target (glob_pattern # gs) =
     (case match_file_with_glob fm target glob_pattern of
        Inl err \<Rightarrow> Inl err
      | Inr True \<Rightarrow> Inr True
      | Inr False \<Rightarrow> match_any fm target gs)"

text \<open>The body of the innermost loop, for one \<open>rule_file_path\<close>.\<close>

definition process_rule_file :: "env \<Rightarrow> string option \<Rightarrow> state \<Rightarrow> string \<Rightarrow> state" where
  "process_rule_file e fpath st rule_file_path =
     (if raised st \<noteq> None then st
      else if rule_file_path \<in> processed_rule_files st then st
      else
        let st1 = st\<lparr> processed_rule_files := insert rule_file_path (processed_rule_files st),
                      loaded := loaded st @ [rule_file_path] \<rparr>
        in case load_rule_from_file e rule_file_path of
             None \<Rightarrow> st1
           | Some r \<Rightarrow>
               if always_apply r then st1\<lparr> applicable_rules := applicable_rules st1 @ [r] \<rparr>
               else if truthy fpath \<and> globs r \<noteq> [] then
                 (case match_any (fnmatch e) (the fpath) (globs r) of
                    Inl err \<Rightarrow> st1\<lparr> raised := Some err \<rparr>
                  | Inr True \<Rightarrow> st1\<lparr> applicable_rules := applicable_rules st1 @ [r] \<rparr>
                  | Inr False \<Rightarrow> st1)
               else if truthy (description r) then
                 st1\<lparr> suggested_rules :=
                        suggested_rules st1 @ [(the (description r), rule_file_path)] \<rparr>
               else st1)"

text \<open>
  The body of the \<open>while\<close> loop up to the step to the parent: the rule documents under
  \<open>current_dir\<close>, in the order of the two nested loops.
\<close>

definition rule_files :: "env \<Rightarrow> string \<Rightarrow> string list" where
  "rule_files e rules_dir =
     concat (map (\<lambda>(root, files).
                    map (os_path_join root) (filter (\<lambda>filename. endswith filename ''.mdc'') files))
                 (walk e rules_dir))"

definition visit_dir :: "env \<Rightarrow> string option \<Rightarrow> state \<Rightarrow> string \<Rightarrow> state" where
  "visit_dir e fpath st current_dir =
     (let rules_dir = os_path_join_list current_dir [''.cursor'', ''rules''];
          st1 = st\<lparr> visited := visited st @ [current_dir] \<rparr>
      in if isdir e rules_dir
         then foldl (process_rule_file e fpath) st1 (rule_files e rules_dir)
         else st1)"


text \<open>
  The \<open>while\<close> loop. An exception raised in the body leaves the loop; otherwise the
  loop moves to the parent directory, and ends when there is none.
\<close>

function walk_up :: "env \<Rightarrow> string option \<Rightarrow> string \<Rightarrow> state \<Rightarrow> string \<Rightarrow> state" where
  "walk_up e fpath repo_root st current_dir =
     (if startswith current_dir repo_root then
        let st1 = visit_dir e fpath st current_dir
        in if raised st1 \<noteq> None then st1
           else if dirname current_dir = current_dir then st1
           else walk_up e fpath repo_root st1 (dirname current_dir)
      else st)"
  by pat_completeness auto
termination
proof (relation "measure (\<lambda>(e, fpath, repo_root, st, current_dir). length current_dir)")
  show "wf (measure (\<lambda>(e, fpath, repo_root, st, current_dir). length current_dir))"
    by simp
next
  fix e :: env and fpath :: "string option" and repo_root :: string
    and st st1 :: state and current_dir :: string
  assume up: "dirname current_dir \<noteq> current_dir"
  have cut: "prefix (rev (dropWhile P (rev xs))) xs" for P and xs :: string
  proof -
    have "rev (dropWhile P (rev xs)) @ rev (takeWhile P (rev xs)) = xs"
      by (simp only: rev_append [symmetric] takeWhile_dropWhile_id rev_rev_ident)
    then show ?thesis by (metis prefixI)
  qed
  let ?head = "rev (dropWhile (\<lambda>c. c \<noteq> CHR ''/'') (rev current_dir))"
  have "prefix (rev (dropWhile (\<lambda>c. c = CHR ''/'') (rev ?head))) current_dir"
    using cut [of "\<lambda>c. c = CHR ''/''" ?head] cut [of "\<lambda>c. c \<noteq> CHR ''/''" current_dir]
    by (rule prefix_order.trans)
  then have "prefix (dirname current_dir) current_dir"
    using cut [of "\<lambda>c. c \<noteq> CHR ''/''" current_dir] by (simp add: dirname_def Let_def)
  then have "length (dirname current_dir) < length current_dir"
    using up by (metis prefix_length_less strict_prefix_def)
  then show "((e, fpath, repo_root, st1, dirname current_dir), (e, fpath, repo_root, st, current_dir))
              \<in> measure (\<lambda>(e, fpath, repo_root, st, current_dir). length current_dir)"
    by simp
qed

declare walk_up.simps [simp del]

text \<open>
  \<open>find_applicable_rules_state\<close> is the state when the body of \<open>find_applicable_rules\<close>
  ends, \<open>find_applicable_rules\<close> what the call gives its caller: the two lists, or the
  exception.
\<close>

definition find_applicable_rules_state :: "env \<Rightarrow> string \<Rightarrow> string option \<Rightarrow> state" where
  "find_applicable_rules_state e repo_root fpath =
     (let repo_root1 = abspath (getcwd e) repo_root;
          start_dir = (if truthy fpath then dirname (abspath (getcwd e) (the fpath))
                       else repo_root1)
      in walk_up e fpath repo_root1 init_state start_dir)"

definition find_applicable_rules ::
    "env \<Rightarrow> string \<Rightarrow> string option \<Rightarrow> error + rule list \<times> (string \<times> string) list" where
  "find_applicable_rules e repo_root fpath =
     (let st = find_applicable_rules_state e repo_root fpath
      in case raised st of
           Some err \<Rightarrow> Inl err
         | None \<Rightarrow> Inr (applicable_rules st, suggested_rules st))"

section \<open>Rendering\<close>

text \<open>
  The two loops of \<open>get_applicable_rules_content\<close> over the lists, each adding to
  \<open>result\<close>; \<open>os.path.relpath\<close> may raise.
\<close>

fun add_applicable :: "env \<Rightarrow> string \<Rightarrow> string \<Rightarrow> rule list \<Rightarrow> error + string" where
  "add_applicable e repo_root result [] = Inr result"
| "add_applicable e repo_root result (r # rs) =
     (case relpath (getcwd e) (file_path r) repo_root of
        Inl err \<Rightarrow> Inl err
      | Inr rel \<Rightarrow>
          add_applicable e repo_root
            (result @ ''\<newline>\<newline>// Rule from '' @ rel @ '':\<newline>'' @ payload r) rs)"

fun add_suggested :: "env \<Rightarrow> string \<Rightarrow> string \<Rightarrow> (string \<times> string) list \<Rightarrow> error + string" where
  "add_suggested e repo_root result [] = Inr result"
| "add_suggested e repo_root result ((descr, rule_path) # rs) =
     (case relpath (getcwd e) rule_path repo_root of
        Inl err \<Rightarrow> Inl err
      | Inr rel_path \<Rightarrow>
          add_suggested e repo_root
            (result @ ''\<newline>\<newline>// If '' @ descr @ '' applies, load '' @ rel_path) rs)"

text \<open>
  The body of the \<open>try\<close> block of \<open>get_applicable_rules_content\<close>, and the function
  itself, whose \<open>except Exception\<close> turns every exception into the empty string.
\<close>

definition rules_content_body :: "env \<Rightarrow> string \<Rightarrow> string option \<Rightarrow> error + string" where
  "rules_content_body e repo_root fpath =
     (case find_applicable_rules e repo_root fpath of
        Inl err \<Rightarrow> Inl err
      | Inr (applicable, suggested) \<Rightarrow>
          if applicable \<noteq> [] \<or> suggested \<noteq> [] then
            (case add_applicable e repo_root ''\<newline>\<newline>// .cursor/rules results:'' applicable of
               Inl err \<Rightarrow> Inl err
             | Inr result \<Rightarrow> add_suggested e repo_root result suggested)
          else Inr '''')"

definition get_applicable_rules_content :: "env \<Rightarrow> string \<Rightarrow> string option \<Rightarrow> string" where
  "get_applicable_rules_content e repo_root fpath =
     (case rules_content_body e repo_root fpath of
        Inl err \<Rightarrow> ''''
      | Inr result \<Rightarrow> result)"


section \<open>Example repositories\<close>

text \<open>
  A repository at \<open>/r\<close> whose rules folder \<open>/r/.cursor/rules\<close> holds the rule document
  \<open>x.mdc\<close> with the given content, beside a file that is not a rule document; the
  working directory is \<open>/r\<close>. And a filesystem with no directory at all.
\<close>

definition repo_one :: "string \<Rightarrow> env" where
  "repo_one content =
     \<lparr> getcwd = ''/r'',
       isdir = (\<lambda>d. d = ''/r/.cursor/rules''),
       walk = (\<lambda>top. if top = ''/r/.cursor/rules''
                      then [(''/r/.cursor/rules'', [''x.mdc'', ''notes.txt''])] else []),
       read_text = (\<lambda>p. if p = ''/r/.cursor/rules/x.mdc'' then Some content else None),
       fnmatch = (\<lambda>name pat. False) \<rparr>"

definition repo_empty :: env where
  "repo_empty =
     \<lparr> getcwd = ''/r'', isdir = (\<lambda>d. False), walk = (\<lambda>top. []),
       read_text = (\<lambda>p. None), fnmatch = (\<lambda>name pat. False) \<rparr>"

text \<open>
  The same rule document, in a filesystem where every directory has a rules folder
  and every rules folder lists the one document \<open>/r/.cursor/rules/x.mdc\<close>: the
  directories of a walk then reach the same document path again and again.
\<close>

definition repo_shared :: "string \<Rightarrow> env" where
  "repo_shared content =
     \<lparr> getcwd = ''/r'',
       isdir = (\<lambda>d. True),
       walk = (\<lambda>top. [(''/r/.cursor/rules'', [''x.mdc''])]),
       read_text = (\<lambda>p. if p = ''/r/.cursor/rules/x.mdc'' then Some content else None),
       fnmatch = (\<lambda>name pat. False) \<rparr>"

text \<open>Rule documents for the examples.\<close>

definition doc_js :: string where
  "doc_js =
     ''---\<newline>description: d\<newline>globs: *.js\<newline>alwaysApply: false\<newline>---\<newline>BODY''"

definition doc_foo :: string where
  "doc_foo =
     ''---\<newline>description: foo\<newline>globs: *.py, *.md\<newline>alwaysApply: false\<newline>---\<newline>Hello''"

definition doc_always :: string where
  "doc_always = ''---\<newline>alwaysApply: true\<newline>---\<newline>Always''"

definition doc_no_description :: string where
  "doc_no_description = ''---\<newline>globs: *.js\<newline>---\<newline>BODY''"

definition doc_double_star :: string where
  "doc_double_star = ''---\<newline>globs: **/*.py\<newline>---\<newline>BODY''"

section \<open>Invariants of the discovery loop\<close>

text \<open>
  Four properties of the state that every step of \<open>find_applicable_rules\<close> keeps.
  \<open>inv_paths\<close>: the processed set holds exactly the loaded paths, no path was loaded
  twice, no path stands twice in the two lists together, and every path of the lists
  was loaded. \<open>inv_class\<close>: every entry of a list came from the branch that appends to
  that list. \<open>inv_complete\<close>: every loaded document that takes the first or the third
  branch has its entry. \<open>inv_quiet\<close>: without a target file nothing raises.
\<close>

definition inv_paths :: "state \<Rightarrow> bool" where
  "inv_paths st \<longleftrightarrow>
     processed_rule_files st = set (loaded st) \<and> distinct (loaded st)
     \<and> distinct (map file_path (applicable_rules st) @ map snd (suggested_rules st))
     \<and> file_path ` set (applicable_rules st) \<union> snd ` set (suggested_rules st)
           \<subseteq> set (loaded st)"

definition inv_class :: "env \<Rightarrow> string option \<Rightarrow> state \<Rightarrow> bool" where
  "inv_class e fpath st \<longleftrightarrow>
     (\<forall>r \<in> set (applicable_rules st).
        load_rule_from_file e (file_path r) = Some r
        \<and> (always_apply r
            \<or> (truthy fpath \<and> globs r \<noteq> []
                \<and> match_any (fnmatch e) (the fpath) (globs r) = Inr True)))
     \<and> (\<forall>(d, p) \<in> set (suggested_rules st).
          \<exists>r. load_rule_from_file e p = Some r \<and> \<not> always_apply r
              \<and> \<not> (truthy fpath \<and> globs r \<noteq> []) \<and> description r = Some d \<and> d \<noteq> [])"

definition inv_complete :: "env \<Rightarrow> string option \<Rightarrow> state \<Rightarrow> bool" where
  "inv_complete e fpath st \<longleftrightarrow>
     (\<forall>p \<in> set (loaded st). \<forall>r. load_rule_from_file e p = Some r \<longrightarrow>
        (always_apply r \<longrightarrow> r \<in> set (applicable_rules st))
        \<and> (\<not> always_apply r \<and> \<not> (truthy fpath \<and> globs r \<noteq> []) \<and> truthy (description r)
             \<longrightarrow> (the (description r), p) \<in> set (suggested_rules st)))"

definition inv_quiet :: "string option \<Rightarrow> state \<Rightarrow> bool" where
  "inv_quiet fpath st \<longleftrightarrow> (\<not> truthy fpath \<longrightarrow> raised st = None)"

section \<open>Facts about the string functions\<close>

lemma split_aux_nonempty: "split_aux sep cur rest \<noteq> []"
  by (induction sep cur rest rule: split_aux.induct) auto

lemma str_join_Cons: "ys \<noteq> [] \<Longrightarrow> str_join sep (x # ys) = x @ sep @ str_join sep ys"
  by (cases ys) auto

lemma str_join_split_aux: "str_join sep (split_aux sep cur rest) = cur @ rest"
proof (induction sep cur rest rule: split_aux.induct)
  case (1 sep cur)
  show ?case by simp
next
  case (2 sep cur c cs)
  show ?case
  proof (cases "sep \<noteq> [] \<and> prefix sep (c # cs)")
    case True
    have ih: "str_join sep (split_aux sep [] (drop (length sep) (c # cs)))
                = drop (length sep) (c # cs)"
      using 2(1) True by simp
    have un: "split_aux sep cur (c # cs) = cur # split_aux sep [] (drop (length sep) (c # cs))"
      using True by simp
    have ap: "sep @ drop (length sep) (c # cs) = c # cs"
      using True by (metis append_eq_conv_conj prefix_def)
    have "str_join sep (split_aux sep cur (c # cs))
            = cur @ sep @ str_join sep (split_aux sep [] (drop (length sep) (c # cs)))"
      unfolding un by (rule str_join_Cons) (rule split_aux_nonempty)
    then show ?thesis using ih ap by simp
  next
    case False
    then show ?thesis using 2(2) by auto
  qed
qed

lemma str_join_split: "str_join sep (split s sep) = s"
  by (simp add: split_def str_join_split_aux)

lemma split_two: "split pat sep = [d, f] \<Longrightarrow> pat = d @ sep @ f"
  using str_join_split [of sep pat] by simp

lemma contains_iff: "contains sub s \<longleftrightarrow> (\<exists>a b. s = a @ sub @ b)"
proof (induction s)
  case Nil
  show ?case by auto
next
  case (Cons c cs)
  show ?case
  proof
    assume "contains sub (c # cs)"
    then consider "prefix sub (c # cs)" | "contains sub cs" by auto
    then show "\<exists>a b. c # cs = a @ sub @ b"
    proof cases
      case 1
      then obtain b where "c # cs = sub @ b" by (auto simp: prefix_def)
      then have "c # cs = [] @ sub @ b" by simp
      then show ?thesis by blast
    next
      case 2
      then obtain a b where "cs = a @ sub @ b" using Cons.IH by blast
      then have "c # cs = (c # a) @ sub @ b" by simp
      then show ?thesis by blast
    qed
  next
    assume "\<exists>a b. c # cs = a @ sub @ b"
    then obtain a b where ab: "c # cs = a @ sub @ b" by blast
    show "contains sub (c # cs)"
    proof (cases a)
      case Nil
      then have "prefix sub (c # cs)" using ab by (simp add: prefix_def)
      then show ?thesis by simp
    next
      case (Cons a0 as)
      then have "cs = as @ sub @ b" using ab by simp
      then show ?thesis using Cons.IH by auto
    qed
  qed
qed

section \<open>The glob matcher: results\<close>

text \<open>
  The branch for the two patterns the source names: \<open>**/*.js\<close> and \<open>**/*.jsx\<close> match
  exactly the files whose base name ends with the extension. No other pattern of this
  shape reaches that branch.
\<close>

lemma match_double_star_js:
  "match_file_with_glob fm target ''**/*.js'' = Inr (endswith (path_name target) ''.js'')"
  "match_file_with_glob fm target ''**/*.jsx'' = Inr (endswith (path_name target) ''.jsx'')"
  by (simp_all add: match_file_with_glob_def startswith_def split_def)

text \<open>When the matcher raises: exactly on the patterns that reach the unpacking with a
  split of fewer or more than two pieces.\<close>

lemma match_raises_iff:
  "match_file_with_glob fm target glob_pattern = Inl err \<longleftrightarrow>
     \<not> startswith glob_pattern ''*.'' \<and> glob_pattern \<noteq> ''**/*.js'' \<and> glob_pattern \<noteq> ''**/*.jsx''
     \<and> contains ''/'' glob_pattern \<and> contains ''**'' glob_pattern
     \<and> length (split glob_pattern ''/**/'') \<noteq> 2"
  by (cases err) (auto simp: match_file_with_glob_def Let_def split: list.splits)

text \<open>
  C2. The claim: for every file path and every non-empty pattern the matcher returns a
  boolean and never raises. The code raises at the pattern \<open>src/**\<close>: the pattern has
  a slash and a double star, the split at \<open>/**/\<close> has one piece only, and
  unpacking it into two names raises \<open>ValueError\<close>.
\<close>

theorem match_raises_on_trailing_double_star:
  "match_file_with_glob fm ''src/main.py'' ''src/**'' = Inl ValueError"
  by (simp add: match_file_with_glob_def startswith_def split_def)

text \<open>
  C3. The claim: for every extension, \<open>**/*.ext\<close> matches exactly the files whose base
  name ends with \<open>.ext\<close>. At the extension \<open>py\<close> the base name \<open>a.py\<close> ends with \<open>.py\<close>,
  and the code raises \<open>ValueError\<close>: only \<open>js\<close> and \<open>jsx\<close> are compared with, and
  \<open>**/*.py\<close> falls to the branch that unpacks the split at \<open>/**/\<close>.
\<close>

theorem match_raises_on_double_star_py:
  "endswith (path_name ''a.py'') (''.'' @ ''py'')
   \<and> match_file_with_glob fm ''a.py'' (''**/*.'' @ ''py'') = Inl ValueError"
  by (simp add: match_file_with_glob_def startswith_def endswith_def split_def
        path_name_def path_tail_def path_root_def suffix_to_prefix)

text \<open>
  Two patterns of that shape where the result is not whether the directory part
  occurs in the file path string. The pattern \<open>./src/**/index.js\<close> with the file path
  \<open>./src/app.py\<close>: the directory part \<open>./src\<close> occurs in the file path, and the matcher
  returns false, since it looks in \<open>str(path)\<close>, which is \<open>src/app.py\<close>. The pattern
  \<open>*.d/**/index.js\<close> with the file path \<open>x/*.d/y.txt\<close>: the directory part \<open>*.d\<close>
  occurs in the file path, and the matcher returns false, since the pattern starts
  with \<open>*.\<close> and the first branch takes it.
\<close>

theorem match_dir_part_in_raw_path_unmatched:
  "''./src/**/index.js'' = ''./src'' @ ''/**/'' @ ''index.js''
   \<and> ''./src/app.py'' = '''' @ ''./src'' @ ''/app.py''
   \<and> path_str ''./src/app.py'' = ''src/app.py''
   \<and> match_file_with_glob (\<lambda>name pat. False) ''./src/app.py'' ''./src/**/index.js'' = Inr False
   \<and> ''*.d/**/index.js'' = ''*.d'' @ ''/**/'' @ ''index.js''
   \<and> ''x/*.d/y.txt'' = ''x/'' @ ''*.d'' @ ''/y.txt''
   \<and> path_str ''x/*.d/y.txt'' = ''x/*.d/y.txt''
   \<and> match_file_with_glob (\<lambda>name pat. False) ''x/*.d/y.txt'' ''*.d/**/index.js'' = Inr False"
  by code_simp

text \<open>
  C10, as the code has it. A pattern that does not start with \<open>*.\<close> and that splits at
  \<open>/**/\<close> into exactly a directory part and a file part, the file part not starting
  with a star: the matcher returns true exactly when the directory part occurs as a
  substring of \<open>str(path)\<close>, the normalised path string of the file path (repeated
  slashes, single-dot components and a trailing slash removed). The file part has no
  effect on the result.
\<close>

theorem match_dir_part_only:
  assumes sp: "split glob_pattern ''/**/'' = [dir_part, file_part]"
    and n1: "\<not> startswith glob_pattern ''*.''"
    and n2: "\<not> startswith file_part ''*''"
  shows "match_file_with_glob fm target glob_pattern
           = Inr (\<exists>before after. path_str target = before @ dir_part @ after)"
proof -
  have eq: "glob_pattern = dir_part @ ''/**/'' @ file_part" using sp by (rule split_two)
  then have sl: "2 \<le> length (filter (\<lambda>c. c = CHR ''/'') glob_pattern)" by simp
  have ne1: "glob_pattern \<noteq> ''**/*.js''" using sl by auto
  have ne2: "glob_pattern \<noteq> ''**/*.jsx''" using sl by auto
  have "glob_pattern = (dir_part @ ''/'') @ ''**'' @ (''/'' @ file_part)" using eq by simp
  then have c2: "contains ''**'' glob_pattern" unfolding contains_iff by blast
  have "glob_pattern = dir_part @ ''/'' @ (''**/'' @ file_part)" using eq by simp
  then have c1: "contains ''/'' glob_pattern" unfolding contains_iff by blast
  have "match_file_with_glob fm target glob_pattern
          = Inr (contains dir_part (path_str target))"
    unfolding match_file_with_glob_def Let_def
    using n1 n2 ne1 ne2 c1 c2 sp by simp
  then show ?thesis by (simp only: contains_iff)
qed

theorem match_dir_part_only_witness:
  "split ''src/**/index.js'' ''/**/'' = [''src'', ''index.js'']
   \<and> \<not> startswith ''src/**/index.js'' ''*.''
   \<and> \<not> startswith ''index.js'' ''*''
   \<and> path_str ''lib/src/app.py'' = ''lib/'' @ ''src'' @ ''/app.py''
   \<and> match_file_with_glob (\<lambda>name pat. False) ''lib/src/app.py'' ''src/**/index.js'' = Inr True
   \<and> match_file_with_glob (\<lambda>name pat. False) ''lib/app.py'' ''src/**/index.js'' = Inr False"
proof -
  have h1: "split ''src/**/index.js'' ''/**/'' = [''src'', ''index.js'']"
    by (simp add: split_def)
  have h2: "\<not> startswith ''src/**/index.js'' ''*.''" by (simp add: startswith_def)
  have h3: "\<not> startswith ''index.js'' ''*''" by (simp add: startswith_def)
  have p: "path_str ''lib/src/app.py'' = ''lib/'' @ ''src'' @ ''/app.py''" by code_simp
  then have ex: "\<exists>before after. path_str ''lib/src/app.py'' = before @ ''src'' @ after"
    by blast
  have q: "path_str ''lib/app.py'' = ''lib/app.py''" by code_simp
  have "\<not> contains ''src'' ''lib/app.py''" by code_simp
  then have nex: "\<not> (\<exists>before after. path_str ''lib/app.py'' = before @ ''src'' @ after)"
    unfolding q contains_iff .
  have c1: "match_file_with_glob (\<lambda>name pat. False) ''lib/src/app.py'' ''src/**/index.js''
              = Inr True"
    using match_dir_part_only [OF h1 h2 h3, of "\<lambda>name pat. False" "''lib/src/app.py''"] ex
    by simp
  have c2: "match_file_with_glob (\<lambda>name pat. False) ''lib/app.py'' ''src/**/index.js''
              = Inr False"
    using match_dir_part_only [OF h1 h2 h3, of "\<lambda>name pat. False" "''lib/app.py''"] nex
    by simp
  show ?thesis using h1 h2 h3 p c1 c2 by (intro conjI)
qed

section \<open>Facts about the discovery loop\<close>

lemma load_file_path: "load_rule_from_file e p = Some r \<Longrightarrow> file_path r = p"
  by (auto simp: load_rule_from_file_def parse_rule_def Let_def split: option.splits)

lemma truthy_Some: "truthy x \<longleftrightarrow> (\<exists>v. x = Some v \<and> v \<noteq> [])"
  by (cases x) (auto simp: truthy_def)

lemma match_any_False:
  "match_any fm target gs = Inr False
     \<longleftrightarrow> (\<forall>g \<in> set gs. match_file_with_glob fm target g = Inr False)"
  by (induction gs) (auto split: sum.splits bool.splits)

lemma foldl_process_inv:
  assumes step: "\<And>s p. P s \<Longrightarrow> P (process_rule_file e fpath s p)"
    and init: "P st"
  shows "P (foldl (process_rule_file e fpath) st ps)"
  using init by (induction ps arbitrary: st) (auto intro: step)

lemma visit_dir_inv:
  assumes step: "\<And>s p. P s \<Longrightarrow> P (process_rule_file e fpath s p)"
    and vis: "\<And>s d. P s \<Longrightarrow> P (s\<lparr> visited := visited s @ [d] \<rparr>)"
    and init: "P st"
  shows "P (visit_dir e fpath st current_dir)"
proof -
  have "P (st\<lparr> visited := visited st @ [current_dir] \<rparr>)" using init by (rule vis)
  then show ?thesis
    unfolding visit_dir_def Let_def
    by (auto intro: foldl_process_inv step)
qed

lemma walk_up_inv:
  assumes step: "\<And>s p. P s \<Longrightarrow> P (process_rule_file e fpath s p)"
    and vis: "\<And>s d. P s \<Longrightarrow> P (s\<lparr> visited := visited s @ [d] \<rparr>)"
    and init: "P st"
  shows "P (walk_up e fpath repo_root st current_dir)"
  using step vis init
proof (induction e fpath repo_root st current_dir rule: walk_up.induct)
  case (1 e fpath repo_root st current_dir)
  let ?st1 = "visit_dir e fpath st current_dir"
  have v: "P ?st1"
    using "1.prems" by (rule visit_dir_inv)
  show ?case
  proof (cases "startswith current_dir repo_root \<and> raised ?st1 = None
                  \<and> dirname current_dir \<noteq> current_dir")
    case True
    then have "P (walk_up e fpath repo_root ?st1 (dirname current_dir))"
      using "1.IH" [of ?st1] "1.prems"(1,2) v by blast
    moreover have "walk_up e fpath repo_root st current_dir
                     = walk_up e fpath repo_root ?st1 (dirname current_dir)"
      using True by (subst walk_up.simps) (simp add: Let_def)
    ultimately show ?thesis by simp
  next
    case False
    then have "walk_up e fpath repo_root st current_dir = st
                 \<or> walk_up e fpath repo_root st current_dir = ?st1"
      by (subst (1 2) walk_up.simps) (auto simp: Let_def)
    then show ?thesis using v "1.prems"(3) by auto
  qed
qed

lemma run_inv:
  assumes step: "\<And>s p. P s \<Longrightarrow> P (process_rule_file e fpath s p)"
    and vis: "\<And>s d. P s \<Longrightarrow> P (s\<lparr> visited := visited s @ [d] \<rparr>)"
    and init: "P init_state"
  shows "P (find_applicable_rules_state e repo_root fpath)"
  unfolding find_applicable_rules_state_def Let_def
  using step vis init by (rule walk_up_inv)

lemma process_rule_file_cases:
  obtains (skip) "process_rule_file e fpath s p = s"
  | (unreadable) "raised s = None" "p \<notin> processed_rule_files s" "load_rule_from_file e p = None"
      "process_rule_file e fpath s p
         = s\<lparr> processed_rule_files := insert p (processed_rule_files s), loaded := loaded s @ [p] \<rparr>"
  | (applicable) r where "raised s = None" "p \<notin> processed_rule_files s"
      "load_rule_from_file e p = Some r"
      "always_apply r \<or> (truthy fpath \<and> globs r \<noteq> []
          \<and> match_any (fnmatch e) (the fpath) (globs r) = Inr True)"
      "process_rule_file e fpath s p
         = s\<lparr> processed_rule_files := insert p (processed_rule_files s), loaded := loaded s @ [p],
              applicable_rules := applicable_rules s @ [r] \<rparr>"
  | (raises) r err where "raised s = None" "p \<notin> processed_rule_files s"
      "load_rule_from_file e p = Some r" "\<not> always_apply r" "truthy fpath" "globs r \<noteq> []"
      "match_any (fnmatch e) (the fpath) (globs r) = Inl err"
      "process_rule_file e fpath s p
         = s\<lparr> processed_rule_files := insert p (processed_rule_files s), loaded := loaded s @ [p],
              raised := Some err \<rparr>"
  | (unmatched) r where "raised s = None" "p \<notin> processed_rule_files s"
      "load_rule_from_file e p = Some r" "\<not> always_apply r" "truthy fpath" "globs r \<noteq> []"
      "match_any (fnmatch e) (the fpath) (globs r) = Inr False"
      "process_rule_file e fpath s p
         = s\<lparr> processed_rule_files := insert p (processed_rule_files s), loaded := loaded s @ [p] \<rparr>"
  | (suggested) r d where "raised s = None" "p \<notin> processed_rule_files s"
      "load_rule_from_file e p = Some r" "\<not> always_apply r" "\<not> (truthy fpath \<and> globs r \<noteq> [])"
      "description r = Some d" "d \<noteq> []"
      "process_rule_file e fpath s p
         = s\<lparr> processed_rule_files := insert p (processed_rule_files s), loaded := loaded s @ [p],
              suggested_rules := suggested_rules s @ [(d, p)] \<rparr>"
  | (dropped) r where "raised s = None" "p \<notin> processed_rule_files s"
      "load_rule_from_file e p = Some r" "\<not> always_apply r" "\<not> (truthy fpath \<and> globs r \<noteq> [])"
      "\<not> truthy (description r)"
      "process_rule_file e fpath s p
         = s\<lparr> processed_rule_files := insert p (processed_rule_files s), loaded := loaded s @ [p] \<rparr>"
proof (cases "raised s \<noteq> None \<or> p \<in> processed_rule_files s")
  case True
  then have "process_rule_file e fpath s p = s" by (auto simp: process_rule_file_def)
  then show ?thesis by (rule skip)
next
  case False
  then have f: "raised s = None" "p \<notin> processed_rule_files s" by auto
  show ?thesis
  proof (cases "load_rule_from_file e p")
    case None
    then show ?thesis using f by (intro unreadable) (auto simp: process_rule_file_def)
  next
    case (Some r)
    show ?thesis
    proof (cases "always_apply r")
      case True
      then show ?thesis using f Some
        by (intro applicable [of r]) (auto simp: process_rule_file_def)
    next
      case na: False
      show ?thesis
      proof (cases "truthy fpath \<and> globs r \<noteq> []")
        case True
        show ?thesis
        proof (cases "match_any (fnmatch e) (the fpath) (globs r)")
          case (Inl err)
          then show ?thesis using f Some na True
            by (intro raises [of r err]) (auto simp: process_rule_file_def)
        next
          case (Inr b)
          show ?thesis
          proof (cases b)
            case True
            then show ?thesis using f Some na Inr \<open>truthy fpath \<and> globs r \<noteq> []\<close>
              by (intro applicable [of r]) (auto simp: process_rule_file_def)
          next
            case False
            then show ?thesis using f Some na Inr \<open>truthy fpath \<and> globs r \<noteq> []\<close>
              by (intro unmatched [of r]) (auto simp: process_rule_file_def)
          qed
        qed
      next
        case ng: False
        show ?thesis
        proof (cases "truthy (description r)")
          case True
          then obtain d where d: "description r = Some d" "d \<noteq> []"
            by (auto simp: truthy_Some)
          show ?thesis using f Some na ng True d
            by (intro suggested [of r d]) (auto simp: process_rule_file_def)
        next
          case False
          then show ?thesis using f Some na ng
            by (intro dropped [of r]) (auto simp: process_rule_file_def)
        qed
      qed
    qed
  qed
qed

lemma inv_paths_step:
  assumes "inv_paths s"
  shows "inv_paths (process_rule_file e fpath s p)"
proof (cases rule: process_rule_file_cases [of e fpath s p])
  case skip
  then show ?thesis using assms by simp
next
  case unreadable
  then show ?thesis using assms by (auto simp: inv_paths_def)
next
  case (applicable r)
  then have "file_path r = p" by (simp add: load_file_path)
  then show ?thesis using applicable assms by (auto simp: inv_paths_def)
next
  case (raises r err)
  then show ?thesis using assms by (auto simp: inv_paths_def)
next
  case (unmatched r)
  then show ?thesis using assms by (auto simp: inv_paths_def)
next
  case (suggested r d)
  then show ?thesis using assms by (auto simp: inv_paths_def)
next
  case (dropped r)
  then show ?thesis using assms by (auto simp: inv_paths_def)
qed

lemma inv_paths_run: "inv_paths (find_applicable_rules_state e repo_root fpath)"
proof (rule run_inv)
  show "inv_paths init_state" by (simp add: inv_paths_def init_state_def)
next
  fix s p
  assume "inv_paths s"
  then show "inv_paths (process_rule_file e fpath s p)" by (rule inv_paths_step)
next
  fix s d
  assume "inv_paths s"
  then show "inv_paths (s\<lparr>visited := visited s @ [d]\<rparr>)" by (auto simp: inv_paths_def)
qed

lemma inv_class_step:
  assumes "inv_class e fpath s"
  shows "inv_class e fpath (process_rule_file e fpath s p)"
proof (cases rule: process_rule_file_cases [of e fpath s p])
  case skip
  then show ?thesis using assms by simp
next
  case unreadable
  then show ?thesis using assms by (auto simp: inv_class_def)
next
  case (applicable r)
  then have "file_path r = p" by (simp add: load_file_path)
  then show ?thesis using applicable assms by (auto simp: inv_class_def)
next
  case (raises r err)
  then show ?thesis using assms by (auto simp: inv_class_def)
next
  case (unmatched r)
  then show ?thesis using assms by (auto simp: inv_class_def)
next
  case (suggested r d)
  then show ?thesis using assms by (auto simp: inv_class_def)
next
  case (dropped r)
  then show ?thesis using assms by (auto simp: inv_class_def)
qed

lemma inv_class_run: "inv_class e fpath (find_applicable_rules_state e repo_root fpath)"
proof (rule run_inv)
  show "inv_class e fpath init_state" by (simp add: inv_class_def init_state_def)
next
  fix s p
  assume "inv_class e fpath s"
  then show "inv_class e fpath (process_rule_file e fpath s p)" by (rule inv_class_step)
next
  fix s d
  assume "inv_class e fpath s"
  then show "inv_class e fpath (s\<lparr>visited := visited s @ [d]\<rparr>)" by (simp add: inv_class_def)
qed

lemma inv_complete_step:
  assumes "inv_complete e fpath s" and "processed_rule_files s = set (loaded s)"
  shows "inv_complete e fpath (process_rule_file e fpath s p)"
proof (cases rule: process_rule_file_cases [of e fpath s p])
  case skip
  then show ?thesis using assms by simp
next
  case unreadable
  then show ?thesis using assms by (auto simp: inv_complete_def)
next
  case (applicable r)
  then show ?thesis using assms by (auto simp: inv_complete_def)
next
  case (raises r err)
  then show ?thesis using assms by (auto simp: inv_complete_def)
next
  case (unmatched r)
  then show ?thesis using assms by (auto simp: inv_complete_def)
next
  case (suggested r d)
  then show ?thesis using assms by (auto simp: inv_complete_def)
next
  case (dropped r)
  then show ?thesis using assms by (auto simp: inv_complete_def)
qed

lemma inv_complete_run: "inv_complete e fpath (find_applicable_rules_state e repo_root fpath)"
proof -
  have "inv_complete e fpath (find_applicable_rules_state e repo_root fpath)
          \<and> inv_paths (find_applicable_rules_state e repo_root fpath)"
  proof (rule run_inv [where P = "\<lambda>s. inv_complete e fpath s \<and> inv_paths s"])
    show "inv_complete e fpath init_state \<and> inv_paths init_state"
      by (simp add: inv_complete_def inv_paths_def init_state_def)
  next
    fix s p
    assume a: "inv_complete e fpath s \<and> inv_paths s"
    then have "processed_rule_files s = set (loaded s)" by (auto simp: inv_paths_def)
    then show "inv_complete e fpath (process_rule_file e fpath s p)
                 \<and> inv_paths (process_rule_file e fpath s p)"
      using a by (simp add: inv_complete_step inv_paths_step)
  next
    fix s d
    assume "inv_complete e fpath s \<and> inv_paths s"
    then show "inv_complete e fpath (s\<lparr>visited := visited s @ [d]\<rparr>)
                 \<and> inv_paths (s\<lparr>visited := visited s @ [d]\<rparr>)"
      by (auto simp: inv_complete_def inv_paths_def)
  qed
  then show ?thesis by simp
qed

lemma inv_quiet_step:
  assumes "inv_quiet fpath s"
  shows "inv_quiet fpath (process_rule_file e fpath s p)"
  using assms
  by (cases rule: process_rule_file_cases [of e fpath s p]) (auto simp: inv_quiet_def)

lemma inv_quiet_run: "inv_quiet fpath (find_applicable_rules_state e repo_root fpath)"
proof (rule run_inv)
  show "inv_quiet fpath init_state" by (simp add: inv_quiet_def init_state_def)
next
  fix s p
  assume "inv_quiet fpath s"
  then show "inv_quiet fpath (process_rule_file e fpath s p)" by (rule inv_quiet_step)
next
  fix s d
  assume "inv_quiet fpath s"
  then show "inv_quiet fpath (s\<lparr>visited := visited s @ [d]\<rparr>)" by (simp add: inv_quiet_def)
qed

lemma find_applicable_rules_Inr:
  "find_applicable_rules e repo_root fpath = Inr (a, s) \<Longrightarrow>
     a = applicable_rules (find_applicable_rules_state e repo_root fpath)
     \<and> s = suggested_rules (find_applicable_rules_state e repo_root fpath)"
  by (auto simp: find_applicable_rules_def Let_def split: option.splits)

lemma process_rule_file_visited [simp]: "visited (process_rule_file e fpath s p) = visited s"
  by (cases rule: process_rule_file_cases [of e fpath s p]) auto

lemma foldl_process_visited [simp]:
  "visited (foldl (process_rule_file e fpath) s ps) = visited s"
  by (induction ps arbitrary: s) auto

lemma visit_dir_visited: "visited (visit_dir e fpath st current_dir) = visited st @ [current_dir]"
  by (simp add: visit_dir_def Let_def)

lemma walk_up_visited:
  assumes "\<forall>d \<in> set (visited st). startswith d repo_root"
  shows "\<forall>d \<in> set (visited (walk_up e fpath repo_root st current_dir)). startswith d repo_root"
  using assms
proof (induction e fpath repo_root st current_dir rule: walk_up.induct)
  case (1 e fpath repo_root st current_dir)
  let ?st1 = "visit_dir e fpath st current_dir"
  show ?case
  proof (cases "startswith current_dir repo_root")
    case False
    then have "walk_up e fpath repo_root st current_dir = st"
      by (subst walk_up.simps) simp
    then show ?thesis using "1.prems" by simp
  next
    case True
    then have v: "\<forall>d \<in> set (visited ?st1). startswith d repo_root"
      using "1.prems" by (simp add: visit_dir_visited)
    show ?thesis
    proof (cases "raised ?st1 = None \<and> dirname current_dir \<noteq> current_dir")
      case True
      then have "\<forall>d \<in> set (visited (walk_up e fpath repo_root ?st1 (dirname current_dir))).
                   startswith d repo_root"
        using "1.IH" [of ?st1] \<open>startswith current_dir repo_root\<close> v by blast
      moreover have "walk_up e fpath repo_root st current_dir
                       = walk_up e fpath repo_root ?st1 (dirname current_dir)"
        using True \<open>startswith current_dir repo_root\<close>
        by (subst walk_up.simps) (simp add: Let_def)
      ultimately show ?thesis by simp
    next
      case False
      then have "walk_up e fpath repo_root st current_dir = ?st1"
        using \<open>startswith current_dir repo_root\<close>
        by (subst walk_up.simps) (auto simp: Let_def)
      then show ?thesis using v by simp
    qed
  qed
qed

section \<open>Discovery: results\<close>

text \<open>
  Every directory the loop body runs on has the resolved repository root as a prefix
  of its path string: that is the loop's guard.
\<close>

lemma visited_startswith_repo_root:
  "\<forall>d \<in> set (visited (find_applicable_rules_state e repo_root fpath)).
     startswith d (abspath (getcwd e) repo_root)"
  unfolding find_applicable_rules_state_def Let_def
  by (rule walk_up_visited) (simp add: init_state_def)

text \<open>
  C4. The claim: the walk visits only directories that are the resolved repository
  root or below it. The guard compares strings, not paths: with the repository root
  \<open>/r\<close> and the target file \<open>/rx/sub/a.py\<close>, the loop body runs on \<open>/rx/sub\<close> and on
  \<open>/rx\<close>, which are not below \<open>/r\<close>.
\<close>

theorem walk_leaves_repo_root:
  "abspath (getcwd repo_empty) ''/r'' = ''/r''
   \<and> visited (find_applicable_rules_state repo_empty ''/r'' (Some ''/rx/sub/a.py''))
       = [''/rx/sub'', ''/rx'']"
  by code_simp

text \<open>
  C5. In every discovery call no path is passed to \<open>load_rule_from_file\<close> twice, and
  no document path stands both in \<open>applicable_rules\<close> and in \<open>suggested_rules\<close>, in the
  state at the end of the call and so in the lists the call returns. This holds for
  every filesystem, also one where the rules folders of two directories of the walk
  list the same document path.
\<close>

theorem discovery_no_duplicates:
  "distinct (loaded (find_applicable_rules_state e repo_root fpath))
   \<and> file_path ` set (applicable_rules (find_applicable_rules_state e repo_root fpath))
       \<inter> snd ` set (suggested_rules (find_applicable_rules_state e repo_root fpath)) = {}
   \<and> (\<forall>applicable suggested.
         find_applicable_rules e repo_root fpath = Inr (applicable, suggested)
         \<longrightarrow> file_path ` set applicable \<inter> snd ` set suggested = {})"
proof -
  let ?st = "find_applicable_rules_state e repo_root fpath"
  have i: "inv_paths ?st" by (rule inv_paths_run)
  then have d: "distinct (loaded ?st)" by (simp add: inv_paths_def)
  have j: "file_path ` set (applicable_rules ?st) \<inter> snd ` set (suggested_rules ?st) = {}"
    using i by (simp add: inv_paths_def)
  show ?thesis using d j by (auto dest!: find_applicable_rules_Inr)
qed

theorem discovery_no_duplicates_witness:
  "visited (find_applicable_rules_state (repo_shared doc_always) ''/r'' (Some ''/r/src/app.py''))
     = [''/r/src'', ''/r'']
   \<and> loaded (find_applicable_rules_state (repo_shared doc_always) ''/r'' (Some ''/r/src/app.py''))
     = [''/r/.cursor/rules/x.mdc'']
   \<and> find_applicable_rules (repo_shared doc_always) ''/r'' (Some ''/r/src/app.py'')
     = Inr ([\<lparr> description = None, globs = [], always_apply = True, payload = ''Always'',
               file_path = ''/r/.cursor/rules/x.mdc'' \<rparr>], [])
   \<and> distinct (loaded (find_applicable_rules_state (repo_shared doc_always) ''/r''
         (Some ''/r/src/app.py'')))"
proof -
  have v: "visited (find_applicable_rules_state (repo_shared doc_always) ''/r''
             (Some ''/r/src/app.py'')) = [''/r/src'', ''/r'']"
    by code_simp
  have l: "loaded (find_applicable_rules_state (repo_shared doc_always) ''/r''
             (Some ''/r/src/app.py'')) = [''/r/.cursor/rules/x.mdc'']"
    by code_simp
  have f: "find_applicable_rules (repo_shared doc_always) ''/r'' (Some ''/r/src/app.py'')
     = Inr ([\<lparr> description = None, globs = [], always_apply = True, payload = ''Always'',
               file_path = ''/r/.cursor/rules/x.mdc'' \<rparr>], [])"
    by code_simp
  have d: "distinct (loaded (find_applicable_rules_state (repo_shared doc_always) ''/r''
         (Some ''/r/src/app.py'')))"
    using discovery_no_duplicates [of "repo_shared doc_always" "''/r''" "Some ''/r/src/app.py''"]
    by (rule conjunct1)
  show ?thesis using v l f d by (intro conjI)
qed

text \<open>
  C6. A document that the call loads, that loads successfully and whose \<open>alwaysApply\<close>
  parsed to true is in \<open>applicable_rules\<close> at the end of the call, and in the first
  list the call returns, whatever the target file is and whether there is one.
\<close>

theorem always_apply_is_applicable:
  assumes "p \<in> set (loaded (find_applicable_rules_state e repo_root fpath))"
    and "load_rule_from_file e p = Some r"
    and "always_apply r"
  shows "r \<in> set (applicable_rules (find_applicable_rules_state e repo_root fpath))
         \<and> (\<forall>applicable suggested.
               find_applicable_rules e repo_root fpath = Inr (applicable, suggested)
               \<longrightarrow> r \<in> set applicable)"
proof -
  have "inv_complete e fpath (find_applicable_rules_state e repo_root fpath)"
    by (rule inv_complete_run)
  then have "r \<in> set (applicable_rules (find_applicable_rules_state e repo_root fpath))"
    using assms unfolding inv_complete_def by blast
  then show ?thesis by (auto dest!: find_applicable_rules_Inr)
qed

theorem always_apply_is_applicable_witness:
  "''/r/.cursor/rules/x.mdc''
     \<in> set (loaded (find_applicable_rules_state (repo_one doc_always) ''/r'' (Some ''/r/src/app.py'')))
   \<and> load_rule_from_file (repo_one doc_always) ''/r/.cursor/rules/x.mdc''
       = Some \<lparr> description = None, globs = [], always_apply = True, payload = ''Always'',
                file_path = ''/r/.cursor/rules/x.mdc'' \<rparr>
   \<and> \<lparr> description = None, globs = [], always_apply = True, payload = ''Always'',
          file_path = ''/r/.cursor/rules/x.mdc'' \<rparr>
       \<in> set (applicable_rules
                (find_applicable_rules_state (repo_one doc_always) ''/r'' (Some ''/r/src/app.py'')))"
proof -
  let ?r = "\<lparr> description = None, globs = [], always_apply = True, payload = ''Always'',
              file_path = ''/r/.cursor/rules/x.mdc'' \<rparr>"
  have h1: "''/r/.cursor/rules/x.mdc''
     \<in> set (loaded (find_applicable_rules_state (repo_one doc_always) ''/r'' (Some ''/r/src/app.py'')))"
    by code_simp
  have h2: "load_rule_from_file (repo_one doc_always) ''/r/.cursor/rules/x.mdc'' = Some ?r"
    by code_simp
  have h3: "always_apply ?r" by simp
  have c: "?r \<in> set (applicable_rules
                (find_applicable_rules_state (repo_one doc_always) ''/r'' (Some ''/r/src/app.py'')))"
    using always_apply_is_applicable [OF h1 h2 h3] by (rule conjunct1)
  show ?thesis using h1 h2 c by (intro conjI)
qed

text \<open>
  C7. A call with no target file (\<open>None\<close>, or the empty string, which the source's
  truth test takes for none) returns, and for a loaded rule with \<open>always_apply\<close> false
  and a non-empty \<open>globs\<close>: the rule is not in the first list, and a pair \<open>(d, p)\<close> for
  its path \<open>p\<close> is in the second list exactly when \<open>d\<close> is its description and passes
  the source's test \<open>rule.description\<close>, that is, is not empty. A rule with no
  description, or an empty one, is in neither list.
\<close>

theorem no_target_suggested_iff_description:
  assumes nt: "\<not> truthy fpath"
    and ld: "p \<in> set (loaded (find_applicable_rules_state e repo_root fpath))"
    and lr: "load_rule_from_file e p = Some r"
    and na: "\<not> always_apply r"
    and gl: "globs r \<noteq> []"
  shows "\<exists>applicable suggested.
           find_applicable_rules e repo_root fpath = Inr (applicable, suggested)
           \<and> p \<notin> file_path ` set applicable
           \<and> (\<forall>d. (d, p) \<in> set suggested \<longleftrightarrow> description r = Some d \<and> d \<noteq> '''')"
proof -
  let ?st = "find_applicable_rules_state e repo_root fpath"
  have "inv_quiet fpath ?st" by (rule inv_quiet_run)
  then have q: "raised ?st = None" using nt by (simp add: inv_quiet_def)
  then have res: "find_applicable_rules e repo_root fpath
                    = Inr (applicable_rules ?st, suggested_rules ?st)"
    by (simp add: find_applicable_rules_def Let_def)
  have cl: "inv_class e fpath ?st" by (rule inv_class_run)
  have co: "inv_complete e fpath ?st" by (rule inv_complete_run)
  have a: "p \<notin> file_path ` set (applicable_rules ?st)"
  proof
    assume "p \<in> file_path ` set (applicable_rules ?st)"
    then obtain r' where r': "r' \<in> set (applicable_rules ?st)" "file_path r' = p" by auto
    then have "load_rule_from_file e p = Some r'" "always_apply r' \<or> truthy fpath"
      using cl unfolding inv_class_def by auto
    then show False using lr na nt by auto
  qed
  have s: "(d, p) \<in> set (suggested_rules ?st) \<longleftrightarrow> description r = Some d \<and> d \<noteq> ''''" for d
  proof
    assume "(d, p) \<in> set (suggested_rules ?st)"
    then obtain r' where "load_rule_from_file e p = Some r'" "description r' = Some d" "d \<noteq> []"
      using cl unfolding inv_class_def by fastforce
    then show "description r = Some d \<and> d \<noteq> ''''" using lr by simp
  next
    assume d: "description r = Some d \<and> d \<noteq> ''''"
    then have "truthy (description r)" by (simp add: truthy_def)
    then have "(the (description r), p) \<in> set (suggested_rules ?st)"
      using co ld lr na nt unfolding inv_complete_def by blast
    then show "(d, p) \<in> set (suggested_rules ?st)" using d by simp
  qed
  show ?thesis using res a s by blast
qed

theorem no_target_suggested_iff_description_witness:
  "(\<exists>applicable suggested.
      find_applicable_rules (repo_one doc_js) ''/r'' None = Inr (applicable, suggested)
      \<and> ''/r/.cursor/rules/x.mdc'' \<notin> file_path ` set applicable
      \<and> (''d'', ''/r/.cursor/rules/x.mdc'') \<in> set suggested)
   \<and> (\<exists>applicable suggested.
      find_applicable_rules (repo_one doc_no_description) ''/r'' None = Inr (applicable, suggested)
      \<and> ''/r/.cursor/rules/x.mdc'' \<notin> file_path ` set applicable
      \<and> ''/r/.cursor/rules/x.mdc'' \<notin> snd ` set suggested)"
proof -
  let ?p = "''/r/.cursor/rules/x.mdc''"
  let ?r1 = "\<lparr> description = Some ''d'', globs = [''*.js''], always_apply = False,
               payload = ''BODY'', file_path = ?p \<rparr>"
  let ?r2 = "\<lparr> description = None, globs = [''*.js''], always_apply = False,
               payload = ''BODY'', file_path = ?p \<rparr>"
  have nt: "\<not> truthy None" by (simp add: truthy_def)
  have l1: "?p \<in> set (loaded (find_applicable_rules_state (repo_one doc_js) ''/r'' None))"
    by code_simp
  have r1: "load_rule_from_file (repo_one doc_js) ?p = Some ?r1" by code_simp
  have l2: "?p \<in> set (loaded (find_applicable_rules_state (repo_one doc_no_description) ''/r'' None))"
    by code_simp
  have r2: "load_rule_from_file (repo_one doc_no_description) ?p = Some ?r2" by code_simp
  have a: "\<exists>applicable suggested.
      find_applicable_rules (repo_one doc_js) ''/r'' None = Inr (applicable, suggested)
      \<and> ?p \<notin> file_path ` set applicable
      \<and> (\<forall>d. (d, ?p) \<in> set suggested \<longleftrightarrow> description ?r1 = Some d \<and> d \<noteq> '''')"
    by (rule no_target_suggested_iff_description [OF nt l1 r1]) simp_all
  have b: "\<exists>applicable suggested.
      find_applicable_rules (repo_one doc_no_description) ''/r'' None = Inr (applicable, suggested)
      \<and> ?p \<notin> file_path ` set applicable
      \<and> (\<forall>d. (d, ?p) \<in> set suggested \<longleftrightarrow> description ?r2 = Some d \<and> d \<noteq> '''')"
    by (rule no_target_suggested_iff_description [OF nt l2 r2]) simp_all
  from a have a': "\<exists>applicable suggested.
      find_applicable_rules (repo_one doc_js) ''/r'' None = Inr (applicable, suggested)
      \<and> ?p \<notin> file_path ` set applicable \<and> (''d'', ?p) \<in> set suggested"
    by auto
  from b have b': "\<exists>applicable suggested.
      find_applicable_rules (repo_one doc_no_description) ''/r'' None = Inr (applicable, suggested)
      \<and> ?p \<notin> file_path ` set applicable \<and> ?p \<notin> snd ` set suggested"
    by auto
  show ?thesis using a' b' by (rule conjI)
qed

text \<open>
  The repository of the spec's scenario: one rule document with description \<open>d\<close>,
  globs \<open>*.js\<close> and \<open>alwaysApply: false\<close>, and the target file \<open>/r/src/app.py\<close>. The rule
  loads, its one pattern does not match, the document is processed, and the call
  returns two empty lists: the pair of the description and the path is not in
  \<open>suggested_rules\<close>.
\<close>

theorem unmatched_glob_rule_vanishes:
  "load_rule_from_file (repo_one doc_js) ''/r/.cursor/rules/x.mdc''
     = Some \<lparr> description = Some ''d'', globs = [''*.js''], always_apply = False,
              payload = ''BODY'', file_path = ''/r/.cursor/rules/x.mdc'' \<rparr>
   \<and> match_file_with_glob (fnmatch (repo_one doc_js)) ''/r/src/app.py'' ''*.js'' = Inr False
   \<and> loaded (find_applicable_rules_state (repo_one doc_js) ''/r'' (Some ''/r/src/app.py''))
       = [''/r/.cursor/rules/x.mdc'']
   \<and> find_applicable_rules (repo_one doc_js) ''/r'' (Some ''/r/src/app.py'') = Inr ([], [])
   \<and> (''d'', ''/r/.cursor/rules/x.mdc'')
       \<notin> set (suggested_rules
                (find_applicable_rules_state (repo_one doc_js) ''/r'' (Some ''/r/src/app.py'')))"
  by code_simp

text \<open>
  C1, as the code has it. With a target file, the branch
  \<open>elif file_path and rule.globs\<close> takes every rule with \<open>always_apply\<close> false and a
  non-empty \<open>globs\<close>, and the branch for suggestions is not reached: when none of the
  patterns matches, the rule's path is in neither list, with or without a description.
\<close>

theorem unmatched_glob_rule_dropped:
  assumes fp: "fpath = Some target" and ne: "target \<noteq> ''''"
    and lr: "load_rule_from_file e p = Some r"
    and na: "\<not> always_apply r"
    and gl: "globs r \<noteq> []"
    and nm: "\<forall>g \<in> set (globs r). match_file_with_glob (fnmatch e) target g = Inr False"
  shows "p \<notin> file_path ` set (applicable_rules (find_applicable_rules_state e repo_root fpath))
         \<and> p \<notin> snd ` set (suggested_rules (find_applicable_rules_state e repo_root fpath))
         \<and> (\<forall>applicable suggested.
               find_applicable_rules e repo_root fpath = Inr (applicable, suggested)
               \<longrightarrow> p \<notin> file_path ` set applicable \<and> p \<notin> snd ` set suggested)"
proof -
  let ?st = "find_applicable_rules_state e repo_root fpath"
  have t: "truthy fpath" using fp ne by (simp add: truthy_def)
  have m: "match_any (fnmatch e) (the fpath) (globs r) = Inr False"
    using nm fp by (simp add: match_any_False)
  have cl: "inv_class e fpath ?st" by (rule inv_class_run)
  have a: "p \<notin> file_path ` set (applicable_rules ?st)"
  proof
    assume "p \<in> file_path ` set (applicable_rules ?st)"
    then obtain r' where r': "r' \<in> set (applicable_rules ?st)" "file_path r' = p" by auto
    then have "load_rule_from_file e p = Some r'"
      "always_apply r' \<or> match_any (fnmatch e) (the fpath) (globs r') = Inr True"
      using cl unfolding inv_class_def by auto
    then show False using lr na m by auto
  qed
  have s: "p \<notin> snd ` set (suggested_rules ?st)"
  proof
    assume "p \<in> snd ` set (suggested_rules ?st)"
    then obtain d where "(d, p) \<in> set (suggested_rules ?st)" by auto
    then obtain r' where "load_rule_from_file e p = Some r'" "\<not> (truthy fpath \<and> globs r' \<noteq> [])"
      using cl unfolding inv_class_def by fastforce
    then show False using lr t gl by auto
  qed
  show ?thesis using a s by (auto dest!: find_applicable_rules_Inr)
qed

theorem unmatched_glob_rule_dropped_witness:
  "load_rule_from_file (repo_one doc_js) ''/r/.cursor/rules/x.mdc''
     = Some \<lparr> description = Some ''d'', globs = [''*.js''], always_apply = False,
              payload = ''BODY'', file_path = ''/r/.cursor/rules/x.mdc'' \<rparr>
   \<and> match_file_with_glob (fnmatch (repo_one doc_js)) ''/r/src/app.py'' ''*.js'' = Inr False
   \<and> ''/r/.cursor/rules/x.mdc''
       \<notin> file_path ` set (applicable_rules
            (find_applicable_rules_state (repo_one doc_js) ''/r'' (Some ''/r/src/app.py'')))
   \<and> ''/r/.cursor/rules/x.mdc''
       \<notin> snd ` set (suggested_rules
            (find_applicable_rules_state (repo_one doc_js) ''/r'' (Some ''/r/src/app.py'')))"
proof -
  let ?p = "''/r/.cursor/rules/x.mdc''"
  let ?r = "\<lparr> description = Some ''d'', globs = [''*.js''], always_apply = False,
              payload = ''BODY'', file_path = ?p \<rparr>"
  have lr: "load_rule_from_file (repo_one doc_js) ?p = Some ?r" by code_simp
  have m: "match_file_with_glob (fnmatch (repo_one doc_js)) ''/r/src/app.py'' ''*.js'' = Inr False"
    by code_simp
  have nm: "\<forall>g \<in> set (globs ?r).
              match_file_with_glob (fnmatch (repo_one doc_js)) ''/r/src/app.py'' g = Inr False"
    using m by simp
  have c: "?p \<notin> file_path ` set (applicable_rules
               (find_applicable_rules_state (repo_one doc_js) ''/r'' (Some ''/r/src/app.py'')))
           \<and> ?p \<notin> snd ` set (suggested_rules
               (find_applicable_rules_state (repo_one doc_js) ''/r'' (Some ''/r/src/app.py'')))"
    using unmatched_glob_rule_dropped [OF refl _ lr _ _ nm, of "''/r''"] by simp
  show ?thesis using lr m c by (intro conjI) simp_all
qed

section \<open>Rendering: results\<close>

text \<open>
  C8. \<open>get_applicable_rules_content\<close> returns a string on every input. When the body of
  its \<open>try\<close> block raises (in discovery or in rendering) the string is empty, and when
  discovery returns two empty lists the string is empty.
\<close>

theorem content_empty_on_failure:
  assumes "rules_content_body e repo_root fpath = Inl err
           \<or> find_applicable_rules e repo_root fpath = Inr ([], [])"
  shows "get_applicable_rules_content e repo_root fpath = ''''"
  using assms
  by (auto simp: get_applicable_rules_content_def rules_content_body_def)

theorem content_empty_on_failure_witness:
  "rules_content_body (repo_one doc_double_star) ''/r'' (Some ''a.py'') = Inl ValueError
   \<and> get_applicable_rules_content (repo_one doc_double_star) ''/r'' (Some ''a.py'') = ''''
   \<and> find_applicable_rules repo_empty ''/r'' (Some ''a.py'') = Inr ([], [])
   \<and> get_applicable_rules_content repo_empty ''/r'' (Some ''a.py'') = ''''"
proof -
  have h1: "rules_content_body (repo_one doc_double_star) ''/r'' (Some ''a.py'') = Inl ValueError"
    by code_simp
  have h2: "find_applicable_rules repo_empty ''/r'' (Some ''a.py'') = Inr ([], [])"
    by code_simp
  have c1: "get_applicable_rules_content (repo_one doc_double_star) ''/r'' (Some ''a.py'') = ''''"
    by (rule content_empty_on_failure [of _ _ _ ValueError]) (simp add: h1)
  have c2: "get_applicable_rules_content repo_empty ''/r'' (Some ''a.py'') = ''''"
    by (rule content_empty_on_failure [of _ _ _ ValueError]) (simp add: h2)
  show ?thesis using h1 h2 c1 c2 by (intro conjI)
qed

text \<open>
  C9. A repository \<open>/r\<close> whose rules folder holds the one rule document \<open>x.mdc\<close> with
  header \<open>description: foo\<close>, \<open>globs: *.py, *.md\<close>, \<open>alwaysApply: false\<close> and body
  \<open>Hello\<close>; the target file is \<open>a.py\<close> in the repository root, given as \<open>/r/a.py\<close> or
  as \<open>a.py\<close> with \<open>/r\<close> the working directory. Whatever else the filesystem holds, the
  rendered text is the header line and one block for the rule; it contains \<open>Hello\<close>
  and the document's path relative to the repository root, \<open>.cursor/rules/x.mdc\<close>.
\<close>

theorem round_trip:
  assumes tgt: "target = ''/r/a.py'' \<or> (target = ''a.py'' \<and> getcwd e = ''/r'')"
    and dir: "isdir e ''/r/.cursor/rules''"
    and files: "rule_files e ''/r/.cursor/rules'' = [''/r/.cursor/rules/x.mdc'']"
    and rd: "read_text e ''/r/.cursor/rules/x.mdc'' = Some doc_foo"
  shows "relpath (getcwd e) ''/r/.cursor/rules/x.mdc'' ''/r'' = Inr ''.cursor/rules/x.mdc''
         \<and> get_applicable_rules_content e ''/r'' (Some target)
             = ''\<newline>\<newline>// .cursor/rules results:\<newline>\<newline>// Rule from .cursor/rules/x.mdc:\<newline>Hello''
         \<and> contains ''Hello'' (get_applicable_rules_content e ''/r'' (Some target))
         \<and> contains ''.cursor/rules/x.mdc'' (get_applicable_rules_content e ''/r'' (Some target))"
proof -
  let ?p = "''/r/.cursor/rules/x.mdc''"
  let ?r = "\<lparr> description = Some ''foo'', globs = [''*.py'', ''*.md''], always_apply = False,
              payload = ''Hello'', file_path = ?p \<rparr>"
  let ?fp = "Some target"
  let ?st1 = "init_state\<lparr> visited := [''/r''], processed_rule_files := {?p},
                loaded := [?p], applicable_rules := [?r] \<rparr>"
  have n1: "normpath ''/r'' = ''/r''" by code_simp
  have n2: "normpath ''/r/a.py'' = ''/r/a.py''" by code_simp
  have n3: "normpath ?p = ?p" by code_simp
  have j: "os_path_join ''/r'' ''a.py'' = ''/r/a.py''" by code_simp
  have root: "abspath (getcwd e) ''/r'' = ''/r''"
    by (simp add: abspath_def startswith_def n1)
  have doc: "abspath (getcwd e) ?p = ?p"
    by (simp add: abspath_def startswith_def n3)
  have "abspath (getcwd e) target = ''/r/a.py''"
    using tgt by (auto simp: abspath_def startswith_def n2 j)
  moreover have "dirname ''/r/a.py'' = ''/r''" by code_simp
  ultimately have start: "dirname (abspath (getcwd e) target) = ''/r''" by simp
  have up: "dirname ''/r'' = ''/''" by code_simp
  have rdir: "os_path_join_list ''/r'' [''.cursor'', ''rules''] = ''/r/.cursor/rules''"
    by code_simp
  have parse: "parse_rule ?p doc_foo = Some ?r" by code_simp
  have load: "load_rule_from_file e ?p = Some ?r"
    by (simp add: load_rule_from_file_def rd parse)
  have m: "match_file_with_glob (fnmatch e) target ''*.py'' = Inr True"
    using tgt
    by (auto simp: match_file_with_glob_def startswith_def endswith_def split_def
          path_name_def path_tail_def path_root_def suffix_to_prefix)
  have tr: "truthy ?fp" using tgt by (auto simp: truthy_def)
  have step: "process_rule_file e ?fp (init_state\<lparr> visited := [''/r''] \<rparr>) ?p = ?st1"
    by (simp add: process_rule_file_def init_state_def load tr m)
  have vd: "visit_dir e ?fp init_state ''/r'' = ?st1"
    using step by (simp add: visit_dir_def Let_def rdir dir files init_state_def)
  have r1: "raised ?st1 = None" by (simp add: init_state_def)
  have s1: "startswith ''/r'' ''/r''" by (simp add: startswith_def)
  have s2: "\<not> startswith ''/'' ''/r''" by (simp add: startswith_def)
  have w2: "walk_up e ?fp ''/r'' st ''/'' = st" for st
    using s2 by (subst walk_up.simps) simp
  have w1: "walk_up e ?fp ''/r'' init_state ''/r'' = ?st1"
    by (subst walk_up.simps) (simp add: s1 vd up w2 Let_def r1)
  have st: "find_applicable_rules_state e ''/r'' ?fp = ?st1"
    by (simp add: find_applicable_rules_state_def Let_def root start tr w1)
  have res: "find_applicable_rules e ''/r'' ?fp = Inr ([?r], [])"
    by (simp add: find_applicable_rules_def st init_state_def)
  have "relpath ''/r'' ?p ''/r'' = Inr ''.cursor/rules/x.mdc''" by code_simp
  then have rel: "relpath (getcwd e) ?p ''/r'' = Inr ''.cursor/rules/x.mdc''"
    by (simp add: relpath_def root doc abspath_def startswith_def n1 n3)
  have out: "get_applicable_rules_content e ''/r'' ?fp
      = ''\<newline>\<newline>// .cursor/rules results:\<newline>\<newline>// Rule from .cursor/rules/x.mdc:\<newline>Hello''"
    by (simp add: get_applicable_rules_content_def rules_content_body_def res rel)
  have c1: "contains ''Hello''
      ''\<newline>\<newline>// .cursor/rules results:\<newline>\<newline>// Rule from .cursor/rules/x.mdc:\<newline>Hello''"
    by code_simp
  have c2: "contains ''.cursor/rules/x.mdc''
      ''\<newline>\<newline>// .cursor/rules results:\<newline>\<newline>// Rule from .cursor/rules/x.mdc:\<newline>Hello''"
    by code_simp
  show ?thesis using rel out c1 c2 by simp
qed

theorem round_trip_witness:
  "getcwd (repo_one doc_foo) = ''/r''
   \<and> isdir (repo_one doc_foo) ''/r/.cursor/rules''
   \<and> rule_files (repo_one doc_foo) ''/r/.cursor/rules'' = [''/r/.cursor/rules/x.mdc'']
   \<and> read_text (repo_one doc_foo) ''/r/.cursor/rules/x.mdc'' = Some doc_foo
   \<and> contains ''Hello'' (get_applicable_rules_content (repo_one doc_foo) ''/r'' (Some ''a.py''))
   \<and> contains ''.cursor/rules/x.mdc''
        (get_applicable_rules_content (repo_one doc_foo) ''/r'' (Some ''a.py''))
   \<and> contains ''Hello'' (get_applicable_rules_content (repo_one doc_foo) ''/r'' (Some ''/r/a.py''))
   \<and> contains ''.cursor/rules/x.mdc''
        (get_applicable_rules_content (repo_one doc_foo) ''/r'' (Some ''/r/a.py''))"
proof -
  have h1: "getcwd (repo_one doc_foo) = ''/r''" by (simp add: repo_one_def)
  have h2: "isdir (repo_one doc_foo) ''/r/.cursor/rules''" by (simp add: repo_one_def)
  have h3: "rule_files (repo_one doc_foo) ''/r/.cursor/rules'' = [''/r/.cursor/rules/x.mdc'']"
    by code_simp
  have h4: "read_text (repo_one doc_foo) ''/r/.cursor/rules/x.mdc'' = Some doc_foo"
    by (simp add: repo_one_def)
  have t1: "''a.py'' = ''/r/a.py'' \<or> (''a.py'' = ''a.py'' \<and> getcwd (repo_one doc_foo) = ''/r'')"
    using h1 by simp
  have t2: "''/r/a.py'' = ''/r/a.py''
              \<or> (''/r/a.py'' = ''a.py'' \<and> getcwd (repo_one doc_foo) = ''/r'')"
    by simp
  note c1 = round_trip [OF t1 h2 h3 h4]
  note c2 = round_trip [OF t2 h2 h3 h4]
  show ?thesis using h1 h2 h3 h4 c1 c2 by (intro conjI) simp_all
qed

end
